theory Spec2Isabelle
  imports Main
begin

section \<open>Strings and the regular expressions of the source\<close>

text \<open>
  A JavaScript string is a sequence of UTF-16 code units. The model uses \<^typ>\<open>string\<close>,
  whose characters are the code units 0..255 (read as Latin-1, the first 256 code
  units of UTF-16); \<open>undefined\<close> is \<open>None\<close> of an option type.
\<close>

definition slash :: char where
  "slash = CHR ''/''"

text \<open>
  \<^verbatim>\<open>path.replace(/\/+$/, "")\<close>: the regular expression is not global, so the
  leftmost match is replaced. A match at a position needs one or more slashes followed by
  the end of the input, so the scan moves right until everything that remains is a
  non-empty run of slashes, and removes that run.
\<close>

fun replace_trailing_slashes :: "string \<Rightarrow> string" where
  "replace_trailing_slashes [] = []"
| "replace_trailing_slashes (c # cs) =
     (if c = slash \<and> list_all (\<lambda>d. d = slash) cs then []
      else c # replace_trailing_slashes cs)"

text \<open>
  \<^verbatim>\<open>const normalizePath = (path?: string) =>
    path === "/" ? "/" : path?.replace(/\/+$/, "");\<close>
\<close>

definition normalizePath :: "string option \<Rightarrow> string option" where
  "normalizePath path =
     (if path = Some ''/'' then Some ''/''
      else map_option replace_trailing_slashes path)"

section \<open>The navigation drawer (SideNav)\<close>

text \<open>
  The component state: \<^verbatim>\<open>useState(false)\<close> for \<open>isOpen\<close> and
  \<^verbatim>\<open>useState<string>()\<close> for \<open>currentPath\<close>.
\<close>

record nav_state =
  isOpen :: bool
  currentPath :: "string option"

text \<open>What the component reads from the browsing context when it mounts.\<close>

record browser_env =
  pathname :: string
  viewport_width :: nat

text \<open>\<^verbatim>\<open>globalThis.matchMedia("(min-width: 1024px)").matches\<close>\<close>

definition matches :: "browser_env \<Rightarrow> bool" where
  "matches env = (1024 \<le> viewport_width env)"

text \<open>The state of the first render: the initial values of the two \<open>useState\<close> calls.\<close>

definition first_render :: "browser_env \<Rightarrow> nav_state" where
  "first_render env = \<lparr>isOpen = False, currentPath = None\<rparr>"

text \<open>
  The first \<open>useEffect\<close> (dependency list empty): it runs once, after the first render,
  and sets the path and the drawer state.
\<close>

definition mount_effect :: "browser_env \<Rightarrow> nav_state \<Rightarrow> nav_state" where
  "mount_effect env s = s\<lparr>currentPath := Some (pathname env), isOpen := matches env\<rparr>"

definition handleChange :: "bool \<Rightarrow> nav_state \<Rightarrow> nav_state" where
  "handleChange e_matches s = s\<lparr>isOpen := e_matches\<rparr>"

definition handleKeyDown :: "string \<Rightarrow> nav_state \<Rightarrow> nav_state" where
  "handleKeyDown key s = (if key = ''Escape'' \<and> isOpen s then s\<lparr>isOpen := False\<rparr> else s)"

definition toggleNav :: "nav_state \<Rightarrow> nav_state" where
  "toggleNav s = s\<lparr>isOpen := \<not> isOpen s\<rparr>"

definition isActive :: "nav_state \<Rightarrow> string \<Rightarrow> bool" where
  "isActive s href = (normalizePath (currentPath s) = normalizePath (Some href))"

text \<open>
  The events the mounted drawer reacts to. The overlay is rendered only while the drawer
  is open (\<^verbatim>\<open>{isOpen && <div ... onClick={toggleNav} />}\<close>), so a click on it
  reaches \<open>toggleNav\<close> only then.
\<close>

datatype nav_event = Toggle | KeyDown string | OverlayClick | MediaChange bool

fun nav_step :: "nav_state \<Rightarrow> nav_event \<Rightarrow> nav_state" where
  "nav_step s Toggle = toggleNav s"
| "nav_step s (KeyDown key) = handleKeyDown key s"
| "nav_step s OverlayClick = (if isOpen s then toggleNav s else s)"
| "nav_step s (MediaChange m) = handleChange m s"

definition nav_run :: "nav_state \<Rightarrow> nav_event list \<Rightarrow> nav_state" where
  "nav_run s evs = foldl nav_step s evs"

section \<open>The table of contents (ArticleToc)\<close>

subsection \<open>Character classes and string functions of the host\<close>

definition code_unit :: "char \<Rightarrow> nat" where
  "code_unit c = of_char c"

text \<open>\<open>\w\<close> of a regular expression without the \<open>u\<close> flag: \<open>[A-Za-z0-9_]\<close>.\<close>

definition is_word :: "char \<Rightarrow> bool" where
  "is_word c =
     (let n = code_unit c
      in (48 \<le> n \<and> n \<le> 57) \<or> (65 \<le> n \<and> n \<le> 90) \<or> n = 95 \<or> (97 \<le> n \<and> n \<le> 122))"

text \<open>
  \<open>\s\<close>: the white space and line terminator code units. Below 256 these are TAB, LF,
  VT, FF, CR, SPACE and NO-BREAK SPACE.
\<close>

definition is_space :: "char \<Rightarrow> bool" where
  "is_space c = (code_unit c \<in> {9, 10, 11, 12, 13, 32, 160})"

definition hyphen :: char where
  "hyphen = CHR ''-''"

text \<open>
  \<open>String.prototype.toLowerCase\<close> on the code units below 256: \<open>A\<close> to \<open>Z\<close> and the
  Latin-1 capitals (0xC0 to 0xDE without the multiplication sign 0xD7) move up by 32.
\<close>

definition toLowerCase_unit :: "char \<Rightarrow> char" where
  "toLowerCase_unit c =
     (let n = code_unit c
      in if (65 \<le> n \<and> n \<le> 90) \<or> (192 \<le> n \<and> n \<le> 214) \<or> (216 \<le> n \<and> n \<le> 222)
         then char_of (n + 32) else c)"

definition toLowerCase :: "string \<Rightarrow> string" where
  "toLowerCase s = map toLowerCase_unit s"

text \<open>\<^verbatim>\<open>.replace(/[^\w\s-]/g, "")\<close>: every code unit outside the class is removed.\<close>

definition replace_other :: "string \<Rightarrow> string" where
  "replace_other s = filter (\<lambda>c. is_word c \<or> is_space c \<or> c = hyphen) s"

text \<open>
  \<^verbatim>\<open>.replace(/\s+/g, "-")\<close>: every maximal run of white space becomes one hyphen
  (\<open>\s+\<close> is greedy, and the next match starts after the run).
\<close>

function replace_spaces :: "string \<Rightarrow> string" where
  "replace_spaces [] = []"
| "replace_spaces (c # cs) =
     (if is_space c then hyphen # replace_spaces (dropWhile is_space cs)
      else c # replace_spaces cs)"
  by pat_completeness auto
termination
  by (relation "measure length") (auto simp: length_dropWhile_le less_Suc_eq_le)

text \<open>
  The expression that makes an id from a heading's text:
  \<^verbatim>\<open>heading.textContent?.toLowerCase().replace(/[^\w\s-]/g, "").replace(/\s+/g, "-") || ""\<close>.
  The \<open>textContent\<close> of an element is a string, never \<open>null\<close>, so the optional chain
  always runs; \<open>|| ""\<close> turns the falsy empty string into the empty string.
\<close>

definition slugify :: "string \<Rightarrow> string" where
  "slugify textContent =
     (let r = replace_spaces (replace_other (toLowerCase textContent))
      in if r = [] then [] else r)"

text \<open>
  The slug as the specification words it: lower case, the non-word characters stripped
  (white space is kept for the next step), white space collapsed to hyphens. Used only to
  compare with \<open>slugify\<close>.
\<close>

definition spec_slugify :: "string \<Rightarrow> string" where
  "spec_slugify textContent =
     replace_spaces (filter (\<lambda>c. is_word c \<or> is_space c) (toLowerCase textContent))"

text \<open>\<open>String.prototype.charAt\<close>: the code unit at the index, or the empty string.\<close>

definition charAt :: "string \<Rightarrow> nat \<Rightarrow> string" where
  "charAt s i = (if i < length s then [s ! i] else [])"

text \<open>
  \<open>parseInt\<close> with no radix argument; \<open>NaN\<close> is \<open>None\<close>. Leading white space is
  skipped, a sign is read, a \<open>0x\<close> prefix selects radix 16, and the longest prefix of
  digits is the value.
\<close>

definition digit_value :: "char \<Rightarrow> nat" where
  "digit_value c =
     (let n = code_unit c
      in if 48 \<le> n \<and> n \<le> 57 then n - 48
         else if 97 \<le> n \<and> n \<le> 102 then n - 87
         else if 65 \<le> n \<and> n \<le> 70 then n - 55
         else 16)"

definition parse_digits :: "nat \<Rightarrow> string \<Rightarrow> int option" where
  "parse_digits radix s =
     (let ds = takeWhile (\<lambda>c. digit_value c < radix) s
      in if ds = [] then None
         else Some (foldl (\<lambda>a c. a * int radix + int (digit_value c)) 0 ds))"

definition parse_unsigned :: "string \<Rightarrow> int option" where
  "parse_unsigned s =
     (if take 2 s = ''0x'' \<or> take 2 s = ''0X'' then parse_digits 16 (drop 2 s)
      else parse_digits 10 s)"

definition parseInt :: "string \<Rightarrow> int option" where
  "parseInt s =
     (case dropWhile is_space s of
        [] \<Rightarrow> None
      | c # cs \<Rightarrow>
          if c = CHR ''-'' then map_option uminus (parse_unsigned cs)
          else if c = CHR ''+'' then parse_unsigned cs
          else parse_unsigned (c # cs))"

subsection \<open>The document\<close>

text \<open>
  The selector \<^verbatim>\<open>"h1, h2, h3, h4, h5, h6"\<close> matches elements with one of six tag
  names; \<open>tagName\<close> of an HTML element is in upper case.
\<close>

datatype htag = H1 | H2 | H3 | H4 | H5 | H6

fun tagName :: "htag \<Rightarrow> string" where
  "tagName H1 = ''H1''"
| "tagName H2 = ''H2''"
| "tagName H3 = ''H3''"
| "tagName H4 = ''H4''"
| "tagName H5 = ''H5''"
| "tagName H6 = ''H6''"

fun tag_number :: "htag \<Rightarrow> int" where
  "tag_number H1 = 1"
| "tag_number H2 = 2"
| "tag_number H3 = 3"
| "tag_number H4 = 4"
| "tag_number H5 = 5"
| "tag_number H6 = 6"

text \<open>A heading element; the \<open>id\<close> property of an element with no id attribute is \<open>""\<close>.\<close>

record heading_el =
  tag :: htag
  hid :: string
  textContent :: string

text \<open>
  A container element with its id and the heading elements below it in document order
  (what \<open>querySelectorAll\<close> returns for it). The document is the list of its containers
  in document order; containers are not nested in the model.
\<close>

record container_el =
  cid :: string
  headings :: "heading_el list"

type_synonym document = "container_el list"

text \<open>An element of the document by its position: container \<open>k\<close>, or heading \<open>j\<close> of it.\<close>

datatype element = Container nat | Heading nat nat

text \<open>
  \<open>document.getElementById\<close>: the first element in document order whose id is the
  argument; an empty id attribute gives an element no id, so \<open>""\<close> finds nothing. A
  container comes before its headings.
\<close>

fun find_heading :: "string \<Rightarrow> heading_el list \<Rightarrow> nat \<Rightarrow> nat option" where
  "find_heading i [] j = None"
| "find_heading i (h # hs) j = (if hid h = i then Some j else find_heading i hs (Suc j))"

fun find_element :: "string \<Rightarrow> document \<Rightarrow> nat \<Rightarrow> element option" where
  "find_element i [] k = None"
| "find_element i (c # cs) k =
     (if cid c = i then Some (Container k)
      else case find_heading i (headings c) 0 of
             Some j \<Rightarrow> Some (Heading k j)
           | None \<Rightarrow> find_element i cs (Suc k))"

definition getElementById :: "document \<Rightarrow> string \<Rightarrow> element option" where
  "getElementById d i = (if i = [] then None else find_element i d 0)"

text \<open>
  \<^verbatim>\<open>article.querySelectorAll("h1, h2, h3, h4, h5, h6")\<close>: the headings below the
  element; a heading has none below it.
\<close>

fun querySelectorAll :: "document \<Rightarrow> element \<Rightarrow> heading_el list" where
  "querySelectorAll d (Container k) = (if k < length d then headings (d ! k) else [])"
| "querySelectorAll d (Heading k j) = []"

text \<open>The document after the loop has assigned ids to the headings of the element.\<close>

fun store_headings :: "document \<Rightarrow> element \<Rightarrow> heading_el list \<Rightarrow> document" where
  "store_headings d (Container k) hs =
     (if k < length d then d[k := (d ! k)\<lparr>headings := hs\<rparr>] else d)"
| "store_headings d (Heading k j) hs = d"

subsection \<open>Component state and host state\<close>

text \<open>\<^verbatim>\<open>interface TocItem { id: string; text: string; level: number; }\<close>\<close>

record toc_item =
  item_id :: string
  item_text :: string
  item_level :: "int option"

text \<open>
  The session history: its entries (the URL given to each) and the index of the current
  one. \<open>history.pushState\<close> drops the entries after the current one, appends a new
  entry and makes it current; \<open>history.replaceState\<close> overwrites the current entry.
\<close>

record history =
  entries :: "string list"
  current :: nat

definition pushState :: "string \<Rightarrow> history \<Rightarrow> history" where
  "pushState url h =
     \<lparr>entries = take (Suc (current h)) (entries h) @ [url], current = Suc (current h)\<rparr>"

definition replaceState :: "string \<Rightarrow> history \<Rightarrow> history" where
  "replaceState url h = h\<lparr>entries := (entries h)[current h := url]\<rparr>"

text \<open>
  The component with what it touches: the document, the two \<open>useState\<close> cells, the
  headings registered with the intersection observer, the warnings written to the
  console, the session history and the element last scrolled to.
\<close>

record toc_world =
  doc :: document
  tocItems :: "toc_item list"
  activeId :: string
  observed :: "heading_el list"
  console :: "string list"
  hist :: history
  scrolled_to :: "element option"

text \<open>\<^verbatim>\<open>useState<TocItem[]>([])\<close> and \<^verbatim>\<open>useState<string>("")\<close>.\<close>

definition initial_world :: "document \<Rightarrow> history \<Rightarrow> toc_world" where
  "initial_world d h =
     \<lparr>doc = d, tocItems = [], activeId = [], observed = [], console = [], hist = h,
      scrolled_to = None\<rparr>"

subsection \<open>The effect: building the outline\<close>

text \<open>
  The body of \<^verbatim>\<open>headings.forEach((heading) => { ... })\<close>: the heading with its id
  assigned when it had none, and the item pushed for it.
\<close>

definition ensure_id :: "heading_el \<Rightarrow> heading_el" where
  "ensure_id heading =
     (if hid heading = [] then heading\<lparr>hid := slugify (textContent heading)\<rparr> else heading)"

definition make_item :: "heading_el \<Rightarrow> toc_item" where
  "make_item heading =
     \<lparr>item_id = hid heading,
      item_text = (if textContent heading = [] then [] else textContent heading),
      item_level = parseInt (charAt (tagName (tag heading)) 1)\<rparr>"

fun forEach_heading ::
  "heading_el list \<Rightarrow> toc_item list \<Rightarrow> heading_el list \<times> toc_item list" where
  "forEach_heading [] items = ([], items)"
| "forEach_heading (heading # rest) items =
     (let h = ensure_id heading;
          (hs, items') = forEach_heading rest (items @ [make_item h])
      in (h # hs, items'))"

definition warning :: "string \<Rightarrow> string" where
  "warning articleId = ''Article with id '' @ [CHR 0x22] @ articleId @ [CHR 0x22] @ '' not found''"

text \<open>
  One run of the effect (\<^verbatim>\<open>useEffect(() => { ... }, [articleId])\<close>). The cleanup of
  the run before it comes first and unobserves every heading; then the container is
  looked up. When it is missing the run warns and returns: no state is set. Otherwise
  the loop runs, \<open>setTocItems(items)\<close> replaces the outline and every heading is
  observed.
\<close>

definition run_effect :: "string \<Rightarrow> toc_world \<Rightarrow> toc_world" where
  "run_effect articleId w0 =
     (let w = w0\<lparr>observed := []\<rparr>
      in case getElementById (doc w) articleId of
           None \<Rightarrow> w\<lparr>console := console w @ [warning articleId]\<rparr>
         | Some article \<Rightarrow>
             (let (hs, items) = forEach_heading (querySelectorAll (doc w) article) []
              in w\<lparr>doc := store_headings (doc w) article hs,
                   tocItems := items,
                   observed := hs\<rparr>))"

subsection \<open>The intersection observer callback\<close>

record io_entry =
  target :: heading_el
  isIntersecting :: bool

definition on_entry :: "toc_world \<Rightarrow> io_entry \<Rightarrow> toc_world" where
  "on_entry w entry = (if isIntersecting entry then w\<lparr>activeId := hid (target entry)\<rparr> else w)"

definition observer_callback :: "io_entry list \<Rightarrow> toc_world \<Rightarrow> toc_world" where
  "observer_callback es w = foldl on_entry w es"

subsection \<open>Click and render\<close>

text \<open>
  \<open>handleClick\<close>: \<open>preventDefault\<close> cancels the navigation of the anchor, so the
  handler's own two calls are all that happens.
\<close>

definition handleClick :: "string \<Rightarrow> toc_world \<Rightarrow> toc_world" where
  "handleClick i w =
     (case getElementById (doc w) i of
        None \<Rightarrow> w
      | Some el \<Rightarrow> w\<lparr>scrolled_to := Some el, hist := pushState (CHR ''#'' # i) (hist w)\<rparr>)"

text \<open>
  One rendered list entry: its key, the \<open>href\<close> of its anchor, the left padding in steps
  of 0.75rem (\<open>level - 1\<close>), whether the anchor carries the classes of the active entry,
  and its text.
\<close>

record toc_entry =
  entry_key :: string
  entry_href :: string
  padding_steps :: "int option"
  marked_active :: bool
  entry_text :: string

definition render_item :: "string \<Rightarrow> toc_item \<Rightarrow> toc_entry" where
  "render_item active item =
     \<lparr>entry_key = item_id item,
      entry_href = CHR ''#'' # item_id item,
      padding_steps = map_option (\<lambda>l. l - 1) (item_level item),
      marked_active = (active = item_id item),
      entry_text = item_text item\<rparr>"

text \<open>The component's result: \<open>null\<close> (\<open>None\<close>) for an empty outline, else the list.\<close>

definition render :: "toc_world \<Rightarrow> toc_entry list option" where
  "render w =
     (if length (tocItems w) = 0 then None
      else Some (map (render_item (activeId w)) (tocItems w)))"

subsection \<open>The life of the component\<close>

text \<open>
  What happens to a mounted component: the effect runs (at mount, and again when the
  \<open>articleId\<close> property changes), the observer delivers a batch whose targets are
  observed headings, an entry is clicked.
\<close>

datatype toc_event = RunEffect string | Intersect "io_entry list" | Click string

fun toc_step :: "toc_world \<Rightarrow> toc_event \<Rightarrow> toc_world option" where
  "toc_step w (RunEffect articleId) = Some (run_effect articleId w)"
| "toc_step w (Intersect es) =
     (if list_all (\<lambda>e. target e \<in> set (observed w)) es
      then Some (observer_callback es w) else None)"
| "toc_step w (Click i) =
     (if i \<in> set (map item_id (tocItems w)) then Some (handleClick i w) else None)"

fun toc_run :: "toc_world \<Rightarrow> toc_event list \<Rightarrow> toc_world option" where
  "toc_run w [] = Some w"
| "toc_run w (ev # evs) =
     (case toc_step w ev of None \<Rightarrow> None | Some w' \<Rightarrow> toc_run w' evs)"

subsection \<open>Example inputs\<close>

text \<open>
  Scenario B of the specification: an article \<open>tabi-article\<close> with the headings
  \<open>Intro\<close> (h1) and \<open>Setup\<close> (h2), neither with an id.
\<close>

definition scenario_B :: document where
  "scenario_B =
     [\<lparr>cid = ''tabi-article'',
       headings = [\<lparr>tag = H1, hid = [], textContent = ''Intro''\<rparr>,
                   \<lparr>tag = H2, hid = [], textContent = ''Setup''\<rparr>]\<rparr>]"

text \<open>A session history with the page's own entry only.\<close>

definition one_entry :: history where
  "one_entry = \<lparr>entries = [[]], current = 0\<rparr>"

text \<open>An article whose second heading has punctuation only: its slug is empty.\<close>

definition punctuation_doc :: document where
  "punctuation_doc =
     [\<lparr>cid = ''tabi-article'',
       headings = [\<lparr>tag = H1, hid = [], textContent = ''Intro''\<rparr>,
                   \<lparr>tag = H2, hid = [], textContent = ''?!''\<rparr>]\<rparr>]"

text \<open>An article with two headings of the same text, so of the same slug.\<close>

definition twice_setup :: document where
  "twice_setup =
     [\<lparr>cid = ''tabi-article'',
       headings = [\<lparr>tag = H2, hid = [], textContent = ''Setup''\<rparr>,
                   \<lparr>tag = H2, hid = [], textContent = ''Setup''\<rparr>]\<rparr>]"

text \<open>A batch of one entry: the heading \<open>Setup\<close> with its assigned id is intersecting.\<close>

definition setup_batch :: "io_entry list" where
  "setup_batch =
     [\<lparr>target = \<lparr>tag = H2, hid = ''setup'', textContent = ''Setup''\<rparr>, isIntersecting = True\<rparr>]"

subsection \<open>Two properties of a state\<close>

text \<open>
  Every observed heading has the id of an item of the outline; the active id is empty
  or the id of an item of the outline.
\<close>

definition observed_in_outline :: "toc_world \<Rightarrow> bool" where
  "observed_in_outline w = (set (map hid (observed w)) \<subseteq> set (map item_id (tocItems w)))"

definition active_in_outline :: "toc_world \<Rightarrow> bool" where
  "active_in_outline w = (activeId w = [] \<or> activeId w \<in> set (map item_id (tocItems w)))"

section \<open>Path normalisation\<close>

lemma replace_trailing_slashes_all_slash:
  "list_all (\<lambda>d. d = slash) cs \<Longrightarrow> replace_trailing_slashes cs = []"
  by (induction cs) auto

lemma replace_trailing_slashes_Nil_iff:
  "replace_trailing_slashes cs = [] \<longleftrightarrow> list_all (\<lambda>d. d = slash) cs"
  by (induction cs) auto

lemma replace_trailing_slashes_idem:
  "replace_trailing_slashes (replace_trailing_slashes cs) = replace_trailing_slashes cs"
proof (induction cs)
  case Nil
  show ?case by simp
next
  case (Cons c cs)
  show ?case
  proof (cases "c = slash \<and> list_all (\<lambda>d. d = slash) cs")
    case True
    then show ?thesis by simp
  next
    case False
    then have "\<not> (c = slash \<and> list_all (\<lambda>d. d = slash) (replace_trailing_slashes cs))"
      using replace_trailing_slashes_Nil_iff [of cs]
        replace_trailing_slashes_Nil_iff [of "replace_trailing_slashes cs"] Cons.IH
      by auto
    with False Cons.IH show ?thesis by simp
  qed
qed

lemma replace_trailing_slashes_not_root:
  "replace_trailing_slashes cs \<noteq> [slash]"
proof (induction cs)
  case Nil
  show ?case by simp
next
  case (Cons c cs)
  show ?case
    using replace_trailing_slashes_Nil_iff [of cs] by (auto simp: Cons.IH)
qed

lemma replace_trailing_slashes_append_slashes:
  "c \<noteq> slash \<Longrightarrow> replace_trailing_slashes ((cs @ [c]) @ replicate n slash) = cs @ [c]"
proof (induction cs)
  case Nil
  have "list_all (\<lambda>d. d = slash) (replicate n slash)" by (simp add: list_all_iff)
  then have "replace_trailing_slashes (replicate n slash) = []"
    by (rule replace_trailing_slashes_all_slash)
  with Nil show ?case by simp
next
  case (Cons x cs)
  have "\<not> list_all (\<lambda>d. d = slash) ((cs @ [c]) @ replicate n slash)"
    using Cons.prems by (simp add: list_all_iff)
  with Cons show ?case by simp
qed

lemma replace_trailing_slashes_dropWhile:
  "replace_trailing_slashes s = rev (dropWhile (\<lambda>c. c = slash) (rev s))"
proof (induction s)
  case Nil
  show ?case by simp
next
  case (Cons c cs)
  show ?case
  proof (cases "list_all (\<lambda>d. d = slash) cs")
    case True
    then have all: "\<And>x. x \<in> set (rev cs) \<Longrightarrow> x = slash" by (simp add: list_all_iff)
    have "dropWhile (\<lambda>c. c = slash) (rev cs @ [c]) = dropWhile (\<lambda>c. c = slash) [c]"
      using all by (rule dropWhile_append2)
    moreover have "dropWhile (\<lambda>c. c = slash) (rev cs) = []"
      using all by simp
    ultimately show ?thesis using True Cons.IH by simp
  next
    case False
    then obtain x where x: "x \<in> set (rev cs)" "\<not> x = slash"
      by (auto simp: list_all_iff)
    have "dropWhile (\<lambda>c. c = slash) (rev cs @ [c]) = dropWhile (\<lambda>c. c = slash) (rev cs) @ [c]"
      using x by (rule dropWhile_append1)
    with False Cons.IH show ?thesis by simp
  qed
qed

text \<open>
  C4: normalisation is idempotent on every argument (every string, and \<open>undefined\<close>),
  the root path is kept, and \<open>/docs/\<close> loses its trailing slash. In general the result
  for a string other than the root path is the string without its trailing run of
  slashes: a path that ends in a character other than a slash, followed by any number of
  slashes, is normalised to that path.
\<close>

theorem normalizePath_idempotent:
  "normalizePath (normalizePath p) = normalizePath p
   \<and> normalizePath (Some ''/'') = Some ''/''
   \<and> normalizePath (Some ''/docs/'') = Some ''/docs''
   \<and> normalizePath None = None
   \<and> normalizePath (Some s) =
       (if s = ''/'' then Some ''/'' else Some (rev (dropWhile (\<lambda>c. c = slash) (rev s))))
   \<and> (c \<noteq> slash \<longrightarrow>
        normalizePath (Some ((cs @ [c]) @ replicate n slash)) = Some (cs @ [c]))"
proof -
  have idem: "normalizePath (normalizePath p) = normalizePath p
   \<and> normalizePath (Some ''/'') = Some ''/''
   \<and> normalizePath (Some ''/docs/'') = Some ''/docs''"
    by (cases p)
      (auto simp: normalizePath_def replace_trailing_slashes_idem
        replace_trailing_slashes_not_root slash_def)
  have char: "normalizePath (Some s) =
       (if s = ''/'' then Some ''/'' else Some (rev (dropWhile (\<lambda>c. c = slash) (rev s))))"
    by (simp add: normalizePath_def replace_trailing_slashes_dropWhile)
  have strip: "normalizePath (Some ((cs @ [c]) @ replicate n slash)) = Some (cs @ [c])"
    if c: "c \<noteq> slash"
  proof -
    have "(cs @ [c]) @ replicate n slash \<noteq> [slash]"
      using c by (cases cs) (auto simp: Cons_eq_append_conv)
    then have "(cs @ [c]) @ replicate n slash \<noteq> ''/''" by (simp add: slash_def)
    then show ?thesis
      using replace_trailing_slashes_append_slashes [OF c, of cs n]
      by (simp add: normalizePath_def)
  qed
  have none: "normalizePath None = None" by (simp add: normalizePath_def)
  from idem char strip none show ?thesis by blast
qed

text \<open>The theorem at \<open>/docs//\<close>: both trailing slashes go.\<close>

theorem normalizePath_idempotent_witness:
  "CHR ''s'' \<noteq> slash \<and> normalizePath (Some ''/docs//'') = Some ''/docs''"
proof -
  have c: "CHR ''s'' \<noteq> slash" by (simp add: slash_def)
  from normalizePath_idempotent [where c = "CHR ''s''" and cs = "''/doc''" and n = 2] c
  have "normalizePath (Some ((''/doc'' @ [CHR ''s'']) @ replicate 2 slash)) = Some (''/doc'' @ [CHR ''s''])"
    by blast
  then have "normalizePath (Some ''/docs//'') = Some ''/docs''"
    by (simp add: slash_def numeral_2_eq_2)
  with c show ?thesis by simp
qed

lemma length_replace_trailing_slashes:
  "length (replace_trailing_slashes cs) \<le> length cs"
  by (induction cs) auto

lemma replace_trailing_slashes_snoc:
  "c \<noteq> slash \<Longrightarrow> replace_trailing_slashes (cs @ [c]) = cs @ [c]"
  by (induction cs) auto

lemma normalizePath_length:
  "normalizePath (Some p) = Some q \<Longrightarrow> length q \<le> length p"
  using length_replace_trailing_slashes [of p]
  by (auto simp: normalizePath_def split: if_splits)

lemma normalizePath_snoc:
  "c \<noteq> slash \<Longrightarrow> normalizePath (Some (cs @ [c])) = Some (cs @ [c])"
  by (auto simp: normalizePath_def replace_trailing_slashes_snoc slash_def)

section \<open>Lemmas about the outline\<close>

lemma level_of_tag: "parseInt (charAt (tagName t) 1) = Some (tag_number t)"
  by (cases t) (simp_all add: parseInt_def charAt_def parse_unsigned_def parse_digits_def
      digit_value_def code_unit_def is_space_def)

lemma forEach_heading_eq:
  "forEach_heading hs items = (map ensure_id hs, items @ map (\<lambda>h. make_item (ensure_id h)) hs)"
  by (induction hs arbitrary: items) (simp_all add: Let_def)

lemma find_heading_Some:
  "find_heading i hs j0 = Some j \<Longrightarrow> j0 \<le> j \<and> j - j0 < length hs \<and> hid (hs ! (j - j0)) = i"
proof (induction hs arbitrary: j0)
  case Nil
  then show ?case by simp
next
  case (Cons h hs)
  show ?case
  proof (cases "hid h = i")
    case True
    with Cons.prems show ?thesis by simp
  next
    case False
    with Cons.prems have "find_heading i hs (Suc j0) = Some j" by simp
    from Cons.IH [OF this] show ?thesis by (auto simp: Suc_diff_le nth_Cons')
  qed
qed

lemma find_element_Container:
  "find_element i d k0 = Some (Container k) \<Longrightarrow> k0 \<le> k \<and> k - k0 < length d \<and> cid (d ! (k - k0)) = i"
proof (induction d arbitrary: k0)
  case Nil
  then show ?case by simp
next
  case (Cons c cs)
  show ?case
  proof (cases "cid c = i")
    case True
    with Cons.prems show ?thesis by simp
  next
    case False
    with Cons.prems have "find_element i cs (Suc k0) = Some (Container k)"
      by (simp split: option.splits)
    from Cons.IH [OF this] show ?thesis by (auto simp: Suc_diff_le nth_Cons')
  qed
qed

lemma getElementById_Container:
  "getElementById d i = Some (Container k) \<Longrightarrow> k < length d \<and> cid (d ! k) = i \<and> i \<noteq> []"
  using find_element_Container [of i d 0 k]
  by (auto simp: getElementById_def split: if_splits)

lemma set_replace_spaces:
  "set (replace_spaces s) \<subseteq> insert hyphen {c \<in> set s. \<not> is_space c}"
proof (induction s rule: replace_spaces.induct)
  case 1
  show ?case by simp
next
  case (2 c cs)
  show ?case
  proof (cases "is_space c")
    case True
    have "set (dropWhile is_space cs) \<subseteq> set cs" by (rule set_dropWhileD [THEN subsetI])
    with True 2(1) show ?thesis by auto
  next
    case False
    with 2(2) show ?thesis by auto
  qed
qed

lemma not_space_hyphen: "\<not> is_space hyphen"
  by (simp add: is_space_def hyphen_def code_unit_def)

lemma slugify_eq: "slugify t = replace_spaces (replace_other (toLowerCase t))"
  by (simp add: slugify_def Let_def)

lemma slugify_chars:
  "list_all (\<lambda>c. (is_word c \<or> c = hyphen) \<and> \<not> is_space c) (slugify t)"
proof -
  have "c \<in> set (slugify t) \<Longrightarrow> (is_word c \<or> c = hyphen) \<and> \<not> is_space c" for c
    using set_replace_spaces [of "replace_other (toLowerCase t)"] not_space_hyphen
    by (auto simp: slugify_eq replace_other_def)
  then show ?thesis by (simp add: list_all_iff)
qed

lemma make_item_ensure_id:
  "make_item (ensure_id h) =
     \<lparr>item_id = (if hid h = [] then slugify (textContent h) else hid h),
      item_text = textContent h,
      item_level = Some (tag_number (tag h))\<rparr>"
  using level_of_tag [of "tag h"] by (simp add: make_item_def ensure_id_def)

lemma run_effect_Container:
  assumes "getElementById (doc w) articleId = Some (Container k)"
  shows "run_effect articleId w =
     w\<lparr>doc := (doc w)[k := (doc w ! k)\<lparr>headings := map ensure_id (headings (doc w ! k))\<rparr>],
       tocItems := map (\<lambda>h. make_item (ensure_id h)) (headings (doc w ! k)),
       observed := map ensure_id (headings (doc w ! k))\<rparr>"
  using assms getElementById_Container [OF assms]
  by (simp add: run_effect_def forEach_heading_eq)

lemma run_effect_None:
  assumes "getElementById (doc w) articleId = None"
  shows "run_effect articleId w = w\<lparr>observed := [], console := console w @ [warning articleId]\<rparr>"
  using assms by (simp add: run_effect_def)

lemma slugify_Intro: "slugify ''Intro'' = ''intro''" by code_simp
lemma slugify_Setup: "slugify ''Setup'' = ''setup''" by code_simp

section \<open>The outline built by the effect\<close>

text \<open>
  C6 (as amended): when the container is found, the effect yields one item per heading
  of the container, in document order, with the text of the heading and the level given
  by its tag; a heading with a non-empty id keeps it, and a heading with none gets the
  slug of its text: lower case, every character other than a word character, white space
  or a hyphen removed, every run of white space replaced by one hyphen. The slug holds
  word characters and hyphens only.
\<close>

theorem build_outline:
  assumes "getElementById (doc w) articleId = Some (Container k)"
  shows "tocItems (run_effect articleId w) =
           map (\<lambda>h. \<lparr>item_id = (if hid h = [] then slugify (textContent h) else hid h),
                      item_text = textContent h,
                      item_level = Some (tag_number (tag h))\<rparr>) (headings (doc w ! k))
         \<and> map hid (headings (doc (run_effect articleId w) ! k)) =
           map (\<lambda>h. if hid h = [] then slugify (textContent h) else hid h) (headings (doc w ! k))
         \<and> slugify t =
           replace_spaces (filter (\<lambda>c. is_word c \<or> is_space c \<or> c = hyphen) (toLowerCase t))
         \<and> list_all (\<lambda>c. (is_word c \<or> c = hyphen) \<and> \<not> is_space c) (slugify t)"
proof -
  from getElementById_Container [OF assms] have k: "k < length (doc w)" by simp
  have items: "tocItems (run_effect articleId w) =
      map (\<lambda>h. make_item (ensure_id h)) (headings (doc w ! k))"
    by (simp add: run_effect_Container [OF assms])
  have ids: "map hid (headings (doc (run_effect articleId w) ! k)) =
      map (\<lambda>h. hid (ensure_id h)) (headings (doc w ! k))"
    using k by (simp add: run_effect_Container [OF assms] comp_def)
  have hid_ensure: "hid (ensure_id h) = (if hid h = [] then slugify (textContent h) else hid h)" for h
    by (simp add: ensure_id_def)
  show ?thesis
    using items ids slugify_chars [of t]
    by (simp add: make_item_ensure_id hid_ensure slugify_eq replace_other_def)
qed

text \<open>Scenario B: the outline of \<open>Intro\<close> (h1) and \<open>Setup\<close> (h2).\<close>

theorem build_outline_witness:
  "getElementById (doc (initial_world scenario_B one_entry)) ''tabi-article'' = Some (Container 0)
   \<and> tocItems (run_effect ''tabi-article'' (initial_world scenario_B one_entry)) =
       [\<lparr>item_id = ''intro'', item_text = ''Intro'', item_level = Some 1\<rparr>,
        \<lparr>item_id = ''setup'', item_text = ''Setup'', item_level = Some 2\<rparr>]"
proof -
  have found: "getElementById (doc (initial_world scenario_B one_entry)) ''tabi-article'' = Some (Container 0)"
    by (simp add: initial_world_def scenario_B_def getElementById_def)
  show ?thesis
    using found build_outline [OF found, of "[]"]
    by (simp add: initial_world_def scenario_B_def slugify_Intro slugify_Setup)
qed

text \<open>
  The claim words the slug as "non-word characters stripped". A hyphen is not a word
  character and is kept: the heading \<open>Built-in\<close> gets the id \<open>built-in\<close>, where
  the slug as worded gives \<open>builtin\<close>.
\<close>

theorem slug_keeps_hyphen_counterexample:
  "map item_id (tocItems (run_effect ''tabi-article''
      (initial_world [\<lparr>cid = ''tabi-article'',
                       headings = [\<lparr>tag = H2, hid = [], textContent = ''Built-in''\<rparr>]\<rparr>] one_entry)))
     = [''built-in'']
   \<and> spec_slugify ''Built-in'' = ''builtin''
   \<and> \<not> is_word hyphen"
  by code_simp

section \<open>The drawer and the active navigation entry\<close>

text \<open>
  C3 as stated fails: the first render has the drawer closed whatever the viewport is,
  here on a viewport 1280 pixels wide, where the media query matches.
\<close>

theorem first_render_closed_counterexample:
  "matches \<lparr>pathname = ''/'', viewport_width = 1280\<rparr>
   \<and> isOpen (first_render \<lparr>pathname = ''/'', viewport_width = 1280\<rparr>) = False"
  by (simp add: matches_def first_render_def)

text \<open>
  C3 (as amended): the first render has the drawer closed; the effect that runs after it
  reads the media query once and opens the drawer exactly when the viewport is at least
  1024 pixels wide. On a wide viewport the closed state of the first render comes before
  the open one.
\<close>

theorem initial_state_after_mount_effect:
  "isOpen (first_render env) = False
   \<and> isOpen (mount_effect env (first_render env)) = (1024 \<le> viewport_width env)
   \<and> currentPath (mount_effect env (first_render env)) = Some (pathname env)"
  by (simp add: matches_def first_render_def mount_effect_def)

text \<open>
  C5: after any sequence of events (toggles, key presses, overlay clicks, earlier
  breakpoint changes) a breakpoint change leaves the drawer open exactly when the new
  breakpoint is wide. In particular: opened by a toggle on a narrow viewport, the drawer
  is open after the change to wide and closed after the change back to narrow; and a
  closed drawer is open after the change from narrow to wide.
\<close>

theorem breakpoint_change_forces_state:
  "isOpen (nav_run s (evs @ [MediaChange wide])) = wide
   \<and> isOpen (nav_run (mount_effect \<lparr>pathname = p, viewport_width = 800\<rparr>
        (first_render \<lparr>pathname = p, viewport_width = 800\<rparr>)) [Toggle]) = True
   \<and> isOpen (nav_run (mount_effect \<lparr>pathname = p, viewport_width = 800\<rparr>
        (first_render \<lparr>pathname = p, viewport_width = 800\<rparr>)) [Toggle, MediaChange True]) = True
   \<and> isOpen (nav_run (mount_effect \<lparr>pathname = p, viewport_width = 800\<rparr>
        (first_render \<lparr>pathname = p, viewport_width = 800\<rparr>))
        [Toggle, MediaChange True, MediaChange False]) = False
   \<and> isOpen (nav_run \<lparr>isOpen = False, currentPath = cp\<rparr> [MediaChange True]) = True"
  by (simp add: nav_run_def handleChange_def toggleNav_def mount_effect_def first_render_def
      matches_def)

text \<open>
  C7: an entry is active exactly when its normalised href equals the normalised current
  path. A path that continues the href with a slash and more, not ending in a slash,
  never makes the entry active (no prefix matching); \<open>/docs\<close> is not active on
  \<open>/docs/getting-started\<close>; on \<open>/start/\<close> the entry \<open>/start\<close> is active and the entry
  \<open>/\<close> is not.
\<close>

theorem isActive_exact:
  "isActive s href = (normalizePath (currentPath s) = normalizePath (Some href))
   \<and> (c \<noteq> slash \<longrightarrow> \<not> isActive \<lparr>isOpen = b, currentPath = Some (href @ slash # rest @ [c])\<rparr> href)
   \<and> isActive \<lparr>isOpen = b, currentPath = Some ''/docs/getting-started''\<rparr> ''/docs'' = False
   \<and> isActive \<lparr>isOpen = b, currentPath = Some ''/start/''\<rparr> ''/start'' = True
   \<and> isActive \<lparr>isOpen = b, currentPath = Some ''/start/''\<rparr> ''/'' = False"
proof -
  have prefix: "\<not> isActive \<lparr>isOpen = b, currentPath = Some (href @ slash # rest @ [c])\<rparr> href"
    if c: "c \<noteq> slash"
  proof
    assume act: "isActive \<lparr>isOpen = b, currentPath = Some (href @ slash # rest @ [c])\<rparr> href"
    have "normalizePath (Some ((href @ slash # rest) @ [c])) = Some ((href @ slash # rest) @ [c])"
      using c by (rule normalizePath_snoc)
    with act have "normalizePath (Some href) = Some (href @ slash # rest @ [c])"
      by (simp add: isActive_def)
    from normalizePath_length [OF this] show False by simp
  qed
  have ex: "isActive \<lparr>isOpen = b, currentPath = Some ''/docs/getting-started''\<rparr> ''/docs'' = False
   \<and> isActive \<lparr>isOpen = b, currentPath = Some ''/start/''\<rparr> ''/start'' = True
   \<and> isActive \<lparr>isOpen = b, currentPath = Some ''/start/''\<rparr> ''/'' = False"
    by (simp add: isActive_def normalizePath_def slash_def)
  have "isActive s href = (normalizePath (currentPath s) = normalizePath (Some href))"
    by (simp add: isActive_def)
  with prefix ex show ?thesis by blast
qed

text \<open>The theorem at the paths of the specification's examples.\<close>

theorem isActive_exact_witness:
  "CHR ''d'' \<noteq> slash
   \<and> \<not> isActive \<lparr>isOpen = True, currentPath = Some ''/docs/getting-started''\<rparr> ''/docs''
   \<and> isActive \<lparr>isOpen = True, currentPath = Some ''/start/''\<rparr> ''/start''"
  using isActive_exact [of "\<lparr>isOpen = True, currentPath = Some ''/start/''\<rparr>" "''/docs''"
      "CHR ''d''" True "''getting-starte''"]
  by (simp add: slash_def)

section \<open>Clicking an entry\<close>

text \<open>
  C1 as stated fails: after the mount on the article of scenario B, a click on the
  entry \<open>setup\<close> finds the heading and leaves a history of two entries where there was
  one; the result differs from replacing the current entry.
\<close>

theorem click_grows_history_counterexample:
  "getElementById (doc (run_effect ''tabi-article'' (initial_world scenario_B one_entry))) ''setup''
     = Some (Heading 0 1)
   \<and> length (entries (hist (run_effect ''tabi-article'' (initial_world scenario_B one_entry)))) = 1
   \<and> length (entries (hist (handleClick ''setup''
        (run_effect ''tabi-article'' (initial_world scenario_B one_entry))))) = 2
   \<and> hist (handleClick ''setup'' (run_effect ''tabi-article'' (initial_world scenario_B one_entry)))
       \<noteq> replaceState ''#setup'' (hist (run_effect ''tabi-article'' (initial_world scenario_B one_entry)))"
  by code_simp

text \<open>
  C1 (as amended): when the element with the id exists, the click scrolls to it and
  pushes a history entry \<open>#id\<close>: the entries after the current one are dropped, the new
  entry is appended and becomes the current one, the entries up to the old current one
  are kept. So the history has one entry more when the current entry was the last. The
  document, the outline and the active id are not touched.
\<close>

theorem handleClick_pushes_entry:
  assumes "getElementById (doc w) i = Some el"
  shows "entries (hist (handleClick i w)) =
           take (Suc (current (hist w))) (entries (hist w)) @ [CHR ''#'' # i]
         \<and> current (hist (handleClick i w)) = Suc (current (hist w))
         \<and> (current (hist w) < length (entries (hist w)) \<longrightarrow>
              length (entries (hist (handleClick i w))) = Suc (Suc (current (hist w)))
              \<and> entries (hist (handleClick i w)) ! current (hist (handleClick i w)) = CHR ''#'' # i
              \<and> take (Suc (current (hist w))) (entries (hist (handleClick i w)))
                  = take (Suc (current (hist w))) (entries (hist w)))
         \<and> (Suc (current (hist w)) = length (entries (hist w)) \<longrightarrow>
              length (entries (hist (handleClick i w))) = Suc (length (entries (hist w))))
         \<and> scrolled_to (handleClick i w) = Some el
         \<and> doc (handleClick i w) = doc w
         \<and> tocItems (handleClick i w) = tocItems w
         \<and> activeId (handleClick i w) = activeId w"
  using assms by (simp add: handleClick_def pushState_def nth_append min_def)

text \<open>The theorem at the click on \<open>setup\<close> after the mount on scenario B.\<close>

theorem handleClick_pushes_entry_witness:
  "getElementById (doc (run_effect ''tabi-article'' (initial_world scenario_B one_entry))) ''setup''
     = Some (Heading 0 1)
   \<and> entries (hist (handleClick ''setup''
        (run_effect ''tabi-article'' (initial_world scenario_B one_entry)))) = [[], ''#setup'']
   \<and> current (hist (handleClick ''setup''
        (run_effect ''tabi-article'' (initial_world scenario_B one_entry)))) = 1"
proof -
  have w: "run_effect ''tabi-article'' (initial_world scenario_B one_entry) =
     \<lparr>doc = [\<lparr>cid = ''tabi-article'',
               headings = [\<lparr>tag = H1, hid = ''intro'', textContent = ''Intro''\<rparr>,
                           \<lparr>tag = H2, hid = ''setup'', textContent = ''Setup''\<rparr>]\<rparr>],
      tocItems = [\<lparr>item_id = ''intro'', item_text = ''Intro'', item_level = Some 1\<rparr>,
                  \<lparr>item_id = ''setup'', item_text = ''Setup'', item_level = Some 2\<rparr>],
      activeId = [],
      observed = [\<lparr>tag = H1, hid = ''intro'', textContent = ''Intro''\<rparr>,
                  \<lparr>tag = H2, hid = ''setup'', textContent = ''Setup''\<rparr>],
      console = [], hist = \<lparr>entries = [[]], current = 0\<rparr>, scrolled_to = None\<rparr>"
    by code_simp
  have found: "getElementById (doc (run_effect ''tabi-article'' (initial_world scenario_B one_entry)))
      ''setup'' = Some (Heading 0 1)"
    unfolding w by (simp add: getElementById_def)
  show ?thesis
    using found handleClick_pushes_entry [OF found] by (simp add: w)
qed

section \<open>Batches of intersection notifications\<close>

lemma activeId_on_entry:
  "activeId (on_entry w e) = (if isIntersecting e then hid (target e) else activeId w)"
  by (simp add: on_entry_def)

lemma observer_callback_snoc:
  "observer_callback (es @ [e]) w = on_entry (observer_callback es w) e"
  by (simp add: observer_callback_def)

lemma activeId_observer_callback:
  "activeId (observer_callback es w) =
     (case rev (filter isIntersecting es) of [] \<Rightarrow> activeId w | e # _ \<Rightarrow> hid (target e))"
proof (induction es rule: rev_induct)
  case Nil
  show ?case by (simp add: observer_callback_def)
next
  case (snoc e es)
  then show ?case by (simp add: observer_callback_snoc activeId_on_entry)
qed

lemma observer_callback_rest:
  "observer_callback es w = w\<lparr>activeId := activeId (observer_callback es w)\<rparr>"
proof (induction es rule: rev_induct)
  case Nil
  show ?case by (simp add: observer_callback_def)
next
  case (snoc e es)
  have "on_entry v e = v\<lparr>activeId := activeId (on_entry v e)\<rparr>" for v
    by (simp add: on_entry_def)
  from this [of "observer_callback es w"] snoc show ?case
    by (metis (no_types) observer_callback_snoc toc_world.update_convs(3) toc_world.surjective toc_world.select_convs(3))
qed

text \<open>
  C9: a batch is processed entry by entry in the order of delivery; an intersecting
  entry writes the id of its target, an entry that is not intersecting changes nothing.
  So after the batch the active id is the id of the target of the last intersecting
  entry, and it is unchanged when no entry is intersecting. The outline is not touched.
\<close>

theorem observer_callback_last_wins:
  "activeId (observer_callback es w) =
     (case rev (filter isIntersecting es) of [] \<Rightarrow> activeId w | e # _ \<Rightarrow> hid (target e))
   \<and> observer_callback (es @ [e]) w = on_entry (observer_callback es w) e
   \<and> activeId (on_entry v e) = (if isIntersecting e then hid (target e) else activeId v)
   \<and> on_entry v \<lparr>target = x, isIntersecting = False\<rparr> = v
   \<and> observer_callback (map (\<lambda>x. \<lparr>target = x, isIntersecting = False\<rparr>) xs) w = w
   \<and> tocItems (observer_callback es w) = tocItems w"
proof -
  have none: "observer_callback (map (\<lambda>x. \<lparr>target = x, isIntersecting = False\<rparr>) xs) w = w"
    by (induction xs rule: rev_induct) (simp_all add: observer_callback_def on_entry_def)
  have items: "tocItems (observer_callback es w) = tocItems w"
    by (subst observer_callback_rest) simp
  show ?thesis
    using none items
    by (simp add: activeId_observer_callback observer_callback_snoc activeId_on_entry on_entry_def)
qed

section \<open>A missing container and the empty outline\<close>

lemma render_None_iff: "render w = None \<longleftrightarrow> tocItems w = []"
  by (simp add: render_def)

lemma missing_container_first_mount:
  assumes "getElementById d articleId = None"
  shows "tocItems (run_effect articleId (initial_world d h)) = []
         \<and> render (run_effect articleId (initial_world d h)) = None
         \<and> console (run_effect articleId (initial_world d h)) = [warning articleId]
         \<and> doc (run_effect articleId (initial_world d h)) = d"
  using assms by (simp add: run_effect_def initial_world_def render_def)

text \<open>
  C8 at an input where it fails: the component is mounted on scenario B with
  \<open>tabi-article\<close>, then its \<open>articleId\<close> changes to \<open>other\<close>, an id no element has.
  The second run of the effect warns and returns before any state is set: the outline of
  the first article stays and the component still renders its two entries. (On the
  first run, \<open>missing_container_first_mount\<close>, the outline is empty and nothing is
  rendered.)
\<close>

theorem stale_outline_after_missing_container:
  "getElementById (doc (run_effect ''tabi-article'' (initial_world scenario_B one_entry))) ''other''
     = None
   \<and> tocItems (run_effect ''other'' (run_effect ''tabi-article'' (initial_world scenario_B one_entry)))
     = [\<lparr>item_id = ''intro'', item_text = ''Intro'', item_level = Some 1\<rparr>,
        \<lparr>item_id = ''setup'', item_text = ''Setup'', item_level = Some 2\<rparr>]
   \<and> map_option (map entry_text)
        (render (run_effect ''other'' (run_effect ''tabi-article'' (initial_world scenario_B one_entry))))
     = Some [''Intro'', ''Setup'']
   \<and> console (run_effect ''other'' (run_effect ''tabi-article'' (initial_world scenario_B one_entry)))
     = [warning ''other'']"
  by code_simp

section \<open>The entry of a heading with an empty id\<close>

lemma slugify_punctuation: "slugify ''?!'' = []" by code_simp

text \<open>
  C10 as stated fails at the first render: the outline is still empty then, and the
  component renders nothing, so the entry of the heading \<open>?!\<close> (no id, empty slug) is
  not rendered at all.
\<close>

theorem first_render_shows_no_entry_counterexample:
  "getElementById punctuation_doc ''tabi-article'' = Some (Container 0)
   \<and> hid (headings (punctuation_doc ! 0) ! 1) = []
   \<and> slugify (textContent (headings (punctuation_doc ! 0) ! 1)) = []
   \<and> render (initial_world punctuation_doc one_entry) = None"
  by code_simp

text \<open>
  C10 (as amended): the active id starts as the empty string, and the first render,
  before the effect, has no entries. When the container is found and one of its
  headings has no id and a text whose slug is empty, then after the mount effect, before
  any intersection event, the heading and its item have the id \<open>""\<close>, the active id is
  still \<open>""\<close>, and the rendered entry of that heading is marked active.
\<close>

theorem empty_id_entry_active_at_start:
  assumes found: "getElementById d articleId = Some (Container k)"
    and j: "j < length (headings (d ! k))"
    and noid: "hid (headings (d ! k) ! j) = []"
    and slug: "slugify (textContent (headings (d ! k) ! j)) = []"
  shows "activeId (initial_world d h) = []
         \<and> render (initial_world d h) = None
         \<and> activeId (run_effect articleId (initial_world d h)) = []
         \<and> hid (headings (doc (run_effect articleId (initial_world d h)) ! k) ! j) = []
         \<and> item_id (tocItems (run_effect articleId (initial_world d h)) ! j) = []
         \<and> (case render (run_effect articleId (initial_world d h)) of
               None \<Rightarrow> False
             | Some es \<Rightarrow> j < length es \<and> entry_key (es ! j) = [] \<and> marked_active (es ! j))"
proof -
  let ?w0 = "initial_world d h"
  have d: "doc ?w0 = d" by (simp add: initial_world_def)
  from found have found': "getElementById (doc ?w0) articleId = Some (Container k)"
    by (simp add: d)
  from getElementById_Container [OF found] have k: "k < length d" by simp
  have e: "hid (ensure_id (headings (d ! k) ! j)) = []"
    using noid slug by (simp add: ensure_id_def)
  have ne: "headings (d ! k) \<noteq> []" using j by auto
  show ?thesis
    using j k e ne
    by (simp add: run_effect_Container [OF found'] d render_def render_item_def make_item_def)
      (simp add: initial_world_def)+
qed

text \<open>The theorem at an article whose second heading is \<open>?!\<close>.\<close>

theorem empty_id_entry_active_at_start_witness:
  "getElementById punctuation_doc ''tabi-article'' = Some (Container 0)
   \<and> 1 < length (headings (punctuation_doc ! 0))
   \<and> hid (headings (punctuation_doc ! 0) ! 1) = []
   \<and> slugify (textContent (headings (punctuation_doc ! 0) ! 1)) = []
   \<and> (case render (run_effect ''tabi-article'' (initial_world punctuation_doc one_entry)) of
         None \<Rightarrow> False
       | Some es \<Rightarrow> 1 < length es \<and> entry_key (es ! 1) = [] \<and> marked_active (es ! 1))"
proof -
  have found: "getElementById punctuation_doc ''tabi-article'' = Some (Container 0)"
    by (simp add: punctuation_doc_def getElementById_def)
  have j: "1 < length (headings (punctuation_doc ! 0))"
    by (simp add: punctuation_doc_def)
  have noid: "hid (headings (punctuation_doc ! 0) ! 1) = []"
    by (simp add: punctuation_doc_def)
  have slug: "slugify (textContent (headings (punctuation_doc ! 0) ! 1)) = []"
    by (simp add: punctuation_doc_def slugify_punctuation)
  from empty_id_entry_active_at_start [OF found j noid slug, of one_entry] found j noid slug
  show ?thesis by blast
qed

section \<open>The active id in the reachable states\<close>

lemma toc_run_invariant:
  assumes "toc_run w0 evs = Some w" and "P w0"
    and "\<And>v ev v'. P v \<Longrightarrow> ev \<in> set evs \<Longrightarrow> toc_step v ev = Some v' \<Longrightarrow> P v'"
  shows "P w"
  using assms
proof (induction evs arbitrary: w0)
  case Nil
  then show ?case by simp
next
  case (Cons ev evs)
  from Cons.prems(1) obtain w1 where s: "toc_step w0 ev = Some w1" and r: "toc_run w1 evs = Some w"
    by (auto split: option.splits)
  have "P w1" using Cons.prems(3) [OF Cons.prems(2) _ s] by simp
  moreover have "P v'" if "P v" and "e \<in> set evs" and "toc_step v e = Some v'" for v e v'
  proof (rule Cons.prems(3) [OF that(1) _ that(3)])
    from that(2) show "e \<in> set (ev # evs)" by simp
  qed
  ultimately show ?case using r Cons.IH [of w1] by blast
qed

lemma run_effect_observed_ids:
  "map hid (observed (run_effect articleId w)) = [] \<or>
   map hid (observed (run_effect articleId w)) = map item_id (tocItems (run_effect articleId w))"
  by (cases "getElementById (doc w) articleId")
    (simp_all add: run_effect_def forEach_heading_eq make_item_def comp_def)

lemma observer_callback_fields:
  "tocItems (observer_callback es w) = tocItems w"
  "observed (observer_callback es w) = observed w"
  by (subst observer_callback_rest, simp)+

lemma handleClick_fields:
  "tocItems (handleClick i w) = tocItems w"
  "observed (handleClick i w) = observed w"
  "activeId (handleClick i w) = activeId w"
  by (simp_all add: handleClick_def split: option.splits)

lemma observed_in_outline_cong:
  "observed v' = observed v \<Longrightarrow> tocItems v' = tocItems v \<Longrightarrow>
   observed_in_outline v' = observed_in_outline v"
  by (simp add: observed_in_outline_def)

lemma observed_in_outline_run_effect: "observed_in_outline (run_effect a v)"
proof -
  from run_effect_observed_ids [of a v]
  have "set (map hid (observed (run_effect a v))) \<subseteq> set (map item_id (tocItems (run_effect a v)))"
  proof
    assume "map hid (observed (run_effect a v)) = []"
    then show ?thesis by simp
  next
    assume "map hid (observed (run_effect a v)) = map item_id (tocItems (run_effect a v))"
    then show ?thesis by simp
  qed
  then show ?thesis unfolding observed_in_outline_def .
qed

lemma observed_in_outline_step:
  assumes "observed_in_outline v" and "toc_step v ev = Some v'"
  shows "observed_in_outline v'"
proof (cases ev)
  case (RunEffect a)
  with assms(2) have "v' = run_effect a v" by simp
  then show ?thesis by (simp add: observed_in_outline_run_effect)
next
  case (Intersect es)
  with assms(2) have v': "v' = observer_callback es v" by (simp split: if_splits)
  show ?thesis
    using assms(1) observed_in_outline_cong [of v' v]
    by (simp add: v' observer_callback_fields)
next
  case (Click i)
  with assms(2) have v': "v' = handleClick i v" by (simp split: if_splits)
  show ?thesis
    using assms(1) observed_in_outline_cong [of v' v]
    by (simp add: v' handleClick_fields)
qed

lemma batch_writes_observed_id:
  assumes "list_all (\<lambda>e. target e \<in> set (observed w)) es"
  shows "activeId (observer_callback es w) = activeId w
         \<or> activeId (observer_callback es w) \<in> set (map hid (observed w))"
proof (cases "rev (filter isIntersecting es)")
  case Nil
  then show ?thesis by (simp add: activeId_observer_callback)
next
  case (Cons e rest)
  then have "e \<in> set (rev (filter isIntersecting es))" by simp
  then have "e \<in> set es" by simp
  with assms have "target e \<in> set (observed w)" by (simp add: list_all_iff)
  then have "hid (target e) \<in> set (map hid (observed w))" by simp
  with Cons show ?thesis by (simp add: activeId_observer_callback)
qed

lemma batch_intersecting_writes_observed_id:
  assumes "list_all (\<lambda>e. target e \<in> set (observed w)) es"
    and "filter isIntersecting es \<noteq> []"
  shows "activeId (observer_callback es w) \<in> set (map hid (observed w))"
proof (cases "rev (filter isIntersecting es)")
  case Nil
  with assms(2) show ?thesis by simp
next
  case (Cons e rest)
  then have "e \<in> set (rev (filter isIntersecting es))" by simp
  then have "e \<in> set es" by simp
  with assms(1) have "target e \<in> set (observed w)" by (simp add: list_all_iff)
  then have "hid (target e) \<in> set (map hid (observed w))" by simp
  with Cons show ?thesis by (simp add: activeId_observer_callback)
qed

lemma active_in_outline_step:
  assumes inv: "observed_in_outline v \<and> active_in_outline v" and step: "toc_step v ev = Some v'"
    and ne: "\<forall>a. ev \<noteq> RunEffect a"
  shows "observed_in_outline v' \<and> active_in_outline v'"
proof -
  have obs: "observed_in_outline v'"
    using inv step by (blast intro: observed_in_outline_step)
  have "active_in_outline v'"
  proof (cases ev)
    case (RunEffect a)
    with ne show ?thesis by simp
  next
    case (Intersect es)
    with step have en: "list_all (\<lambda>e. target e \<in> set (observed v)) es"
      and v': "v' = observer_callback es v" by (simp_all split: if_splits)
    have items: "tocItems v' = tocItems v" by (simp add: v' observer_callback_fields)
    from inv have sub: "set (map hid (observed v)) \<subseteq> set (map item_id (tocItems v))"
      and act: "activeId v = [] \<or> activeId v \<in> set (map item_id (tocItems v))"
      by (simp_all add: observed_in_outline_def active_in_outline_def)
    from batch_writes_observed_id [OF en]
    have "activeId v' = activeId v \<or> activeId v' \<in> set (map hid (observed v))"
      by (simp add: v')
    with sub act have "activeId v' = [] \<or> activeId v' \<in> set (map item_id (tocItems v))"
      by (metis subsetD)
    then show ?thesis by (simp add: active_in_outline_def items)
  next
    case (Click i)
    with step have v': "v' = handleClick i v" by (simp split: if_splits)
    with inv show ?thesis by (simp add: active_in_outline_def handleClick_fields)
  qed
  with obs show ?thesis by simp
qed

lemma count_marked:
  "length (filter marked_active (map (render_item a) items)) =
   length (filter (\<lambda>i. item_id i = a) items)"
  by (induction items) (auto simp: render_item_def)

lemma distinct_count_le_1:
  "distinct (map f xs) \<Longrightarrow> length (filter (\<lambda>x. f x = a) xs) \<le> 1"
proof (induction xs)
  case Nil
  show ?case by simp
next
  case (Cons x xs)
  show ?case
  proof (cases "f x = a")
    case True
    with Cons.prems have "a \<notin> f ` set xs" by auto
    then have "filter (\<lambda>x. f x = a) xs = []" by (auto simp: filter_empty_conv)
    with True show ?thesis by simp
  next
    case False
    with Cons show ?thesis by simp
  qed
qed

lemma initial_invariants:
  "observed_in_outline (initial_world d h)" "active_in_outline (initial_world d h)"
  by (simp_all add: observed_in_outline_def active_in_outline_def initial_world_def)

lemma reachable_observed_in_outline:
  assumes "toc_run (initial_world d h) evs = Some w"
  shows "observed_in_outline w"
  using assms initial_invariants(1) [of d h]
  by (rule toc_run_invariant) (rule observed_in_outline_step)

lemma run_effect_activeId: "activeId (run_effect a w) = activeId w"
  by (cases "getElementById (doc w) a") (simp_all add: run_effect_def split: prod.splits)

lemma single_mount_active_in_outline:
  assumes run: "toc_run (initial_world d h) (RunEffect a # evs) = Some w"
    and ne: "\<forall>b. RunEffect b \<notin> set evs"
  shows "active_in_outline w"
proof -
  let ?w1 = "run_effect a (initial_world d h)"
  from run have r: "toc_run ?w1 evs = Some w" by simp
  have "activeId ?w1 = []" by (simp add: run_effect_activeId initial_world_def)
  then have i1: "observed_in_outline ?w1 \<and> active_in_outline ?w1"
    by (simp add: observed_in_outline_run_effect active_in_outline_def)
  have "observed_in_outline w \<and> active_in_outline w"
    using r i1
  proof (rule toc_run_invariant)
    fix v ev v'
    assume inv: "observed_in_outline v \<and> active_in_outline v" and mem: "ev \<in> set evs"
      and step: "toc_step v ev = Some v'"
    from mem ne have "\<forall>b. ev \<noteq> RunEffect b" by blast
    with inv step show "observed_in_outline v' \<and> active_in_outline v'"
      by (rule active_in_outline_step)
  qed
  then show ?thesis by simp
qed

text \<open>
  C2 as stated fails: with two headings of the same text the two items have the same
  id, and after the first of them is reported as intersecting both entries are marked
  active.
\<close>

theorem two_entries_active_counterexample:
  "map_option (\<lambda>w. (map item_id (tocItems w), activeId w, map_option (map marked_active) (render w)))
     (toc_run (initial_world twice_setup one_entry)
        [RunEffect ''tabi-article'', Intersect setup_batch])
   = Some ([''setup'', ''setup''], ''setup'', Some [True, True])"
  by code_simp

text \<open>
  C2 (as amended): the active id is a string, initially empty, never undefined. In every
  state reached from the initial one by runs of the effect, batches of intersection
  notifications on observed headings and clicks on entries: every observed heading has
  the id of an item of the outline, so a batch with an intersecting entry sets the active
  id to the id of an item; when the effect ran once, at the mount, the active id is empty
  or the id of an item; the entries marked active are the items whose id is the active
  id, and they are at most one when the ids of the outline are pairwise distinct.
\<close>

theorem active_entries_invariant:
  assumes "toc_run (initial_world d h) evs = Some w"
  shows "set (map hid (observed w)) \<subseteq> set (map item_id (tocItems w))
         \<and> (list_all (\<lambda>e. target e \<in> set (observed w)) es \<and> filter isIntersecting es \<noteq> [] \<longrightarrow>
              activeId (observer_callback es w) \<in> set (map item_id (tocItems w)))
         \<and> ((\<exists>a evs'. evs = RunEffect a # evs' \<and> (\<forall>b. RunEffect b \<notin> set evs')) \<longrightarrow>
              activeId w = [] \<or> activeId w \<in> set (map item_id (tocItems w)))
         \<and> length (filter marked_active (map (render_item (activeId w)) (tocItems w)))
             = length (filter (\<lambda>i. item_id i = activeId w) (tocItems w))
         \<and> (distinct (map item_id (tocItems w)) \<longrightarrow>
              length (filter marked_active (map (render_item (activeId w)) (tocItems w))) \<le> 1)"
proof -
  from reachable_observed_in_outline [OF assms]
  have sub: "set (map hid (observed w)) \<subseteq> set (map item_id (tocItems w))"
    by (simp add: observed_in_outline_def)
  have batch: "activeId (observer_callback es w) \<in> set (map item_id (tocItems w))"
    if "list_all (\<lambda>e. target e \<in> set (observed w)) es" and "filter isIntersecting es \<noteq> []"
    using batch_intersecting_writes_observed_id [OF that] sub by blast
  have single: "activeId w = [] \<or> activeId w \<in> set (map item_id (tocItems w))"
    if "\<exists>a evs'. evs = RunEffect a # evs' \<and> (\<forall>b. RunEffect b \<notin> set evs')"
  proof -
    from that obtain a evs' where "evs = RunEffect a # evs'" and "\<forall>b. RunEffect b \<notin> set evs'"
      by blast
    with assms single_mount_active_in_outline [of d h a evs' w] show ?thesis
      by (simp add: active_in_outline_def)
  qed
  have le: "length (filter marked_active (map (render_item (activeId w)) (tocItems w))) \<le> 1"
    if "distinct (map item_id (tocItems w))"
    using distinct_count_le_1 [OF that, of "activeId w"]
    by (simp only: count_marked [of "activeId w" "tocItems w"])
  show ?thesis
    using sub batch single le count_marked [of "activeId w" "tocItems w"] by blast
qed

text \<open>The theorem after the mount on scenario B and one intersecting entry.\<close>

theorem active_entries_invariant_witness:
  "toc_run (initial_world scenario_B one_entry) [RunEffect ''tabi-article'', Intersect setup_batch]
     = Some (observer_callback setup_batch
         (run_effect ''tabi-article'' (initial_world scenario_B one_entry)))
   \<and> distinct (map item_id (tocItems (observer_callback setup_batch
         (run_effect ''tabi-article'' (initial_world scenario_B one_entry)))))
   \<and> list_all (\<lambda>e. target e \<in> set (observed (observer_callback setup_batch
         (run_effect ''tabi-article'' (initial_world scenario_B one_entry))))) setup_batch
   \<and> filter isIntersecting setup_batch \<noteq> []
   \<and> activeId (observer_callback setup_batch (observer_callback setup_batch
         (run_effect ''tabi-article'' (initial_world scenario_B one_entry))))
       \<in> set (map item_id (tocItems (observer_callback setup_batch
         (run_effect ''tabi-article'' (initial_world scenario_B one_entry)))))
   \<and> activeId (observer_callback setup_batch
         (run_effect ''tabi-article'' (initial_world scenario_B one_entry)))
       \<in> set (map item_id (tocItems (observer_callback setup_batch
         (run_effect ''tabi-article'' (initial_world scenario_B one_entry)))))
   \<and> length (filter marked_active
        (map (render_item (activeId (observer_callback setup_batch
               (run_effect ''tabi-article'' (initial_world scenario_B one_entry)))))
          (tocItems (observer_callback setup_batch
               (run_effect ''tabi-article'' (initial_world scenario_B one_entry)))))) \<le> 1"
proof -
  let ?w = "observer_callback setup_batch
    (run_effect ''tabi-article'' (initial_world scenario_B one_entry))"
  have run: "toc_run (initial_world scenario_B one_entry)
     [RunEffect ''tabi-article'', Intersect setup_batch] = Some ?w"
    by code_simp
  have dist: "distinct (map item_id (tocItems ?w))"
    by code_simp
  have en: "list_all (\<lambda>e. target e \<in> set (observed ?w)) setup_batch"
    by code_simp
  have some: "filter isIntersecting setup_batch \<noteq> []"
    by (simp add: setup_batch_def)
  have once: "\<exists>a evs'. [RunEffect ''tabi-article'', Intersect setup_batch] = RunEffect a # evs'
      \<and> (\<forall>b. RunEffect b \<notin> set evs')"
    by simp
  have set: "activeId ?w \<noteq> []"
    by code_simp
  from active_entries_invariant [OF run, of setup_batch] dist en some once set run
  show ?thesis by blast
qed

end
